theory Spec2Isabelle
  imports Complex_Main
begin

section \<open>Python floats\<close>

text \<open>
  A Python float is an IEEE 754 double. The model takes a finite double as the real
  number it denotes and rounds the exact result of every operation to the nearest
  double, ties to the even significand: 53 significant bits, exponents from \<open>-1022\<close> to
  1023, subnormal numbers below.
\<close>

datatype error =
    ZeroDivisionError
  | OverflowError
  | AttributeError
  | KeyError
  | PlantError
  | InvalidStateError

text \<open>
  \<^const>\<open>ZeroDivisionError\<close>, \<^const>\<open>OverflowError\<close>, \<^const>\<open>AttributeError\<close> and
  \<^const>\<open>KeyError\<close> are the Python exceptions the statements of main1.py raise.
  \<^const>\<open>PlantError\<close> stands for an exception raised inside a method of the multibody
  library. \<^const>\<open>InvalidStateError\<close> is the error of the specification's taxonomy; no
  statement of main1.py raises it.
\<close>

definition round_half_even :: "real \<Rightarrow> int" where
  "round_half_even y =
     (let n = \<lfloor>y\<rfloor>; f = y - of_int n in
      if f < 1 / 2 then n else if 1 / 2 < f then n + 1 else if even n then n else n + 1)"

definition exponent :: "real \<Rightarrow> int" where
  "exponent x = max \<lfloor>log 2 \<bar>x\<bar>\<rfloor> (- 1022)"

definition ulp :: "real \<Rightarrow> real" where
  "ulp x = 2 powr (of_int (exponent x - 52))"

definition round_double :: "real \<Rightarrow> real" where
  "round_double x = (if x = 0 then 0 else ulp x * of_int (round_half_even (x / ulp x)))"

text \<open>An exact result of this magnitude or more rounds to an infinity.\<close>

definition overflows :: "real \<Rightarrow> bool" where
  "overflows x = (2 ^ 1024 - 2 ^ 970 \<le> \<bar>x\<bar>)"

text \<open>The finite doubles: the numbers in range that rounding leaves as they are.\<close>

definition is_double :: "real \<Rightarrow> bool" where
  "is_double x = (round_double x = x \<and> \<not> overflows x)"

text \<open>
  \<open>+\<close>, \<open>*\<close> and \<open>/\<close> on floats. Only the division raises, on a zero divisor. A sum,
  product or quotient that overflows is an infinity in Python and raises nothing; the
  model keeps the rounded real there.
\<close>

definition fadd :: "real \<Rightarrow> real \<Rightarrow> real" where
  "fadd x y = round_double (x + y)"

definition fmul :: "real \<Rightarrow> real \<Rightarrow> real" where
  "fmul x y = round_double (x * y)"

definition fdiv :: "real \<Rightarrow> real \<Rightarrow> error + real" where
  "fdiv x y = (if y = 0 then Inl ZeroDivisionError else Inr (round_double (x / y)))"

text \<open>\<open>x / 2\<close>: the divisor is the literal 2, the division cannot raise.\<close>

definition half :: "real \<Rightarrow> real" where
  "half x = round_double (x / 2)"

text \<open>\<open>x ** n\<close> on a float raises when the result is out of range.\<close>

definition fpow :: "real \<Rightarrow> nat \<Rightarrow> error + real" where
  "fpow x n = (if overflows (x ^ n) then Inl OverflowError else Inr (round_double (x ^ n)))"

section \<open>The dynamic arm model (main1.py, class Arm)\<close>

text \<open>
  The arm is a Python object holding four floats, a multibody plant and the plant's
  context. The multibody toolkit is an external library; the model has of it what
  \<open>set_end_mass\<close> and \<open>calculate_inverse_dynamics\<close> touch.
\<close>

datatype rotational_inertia = RotationalInertia real real real

record spatial_inertia =
  mass :: real
  p_PScm_E :: "real list"
  G_SP_E :: rotational_inertia

record plant_context =
  end_mass_param :: "real list"
  link2_inertia :: spatial_inertia
  positions :: "real list"
  velocities :: "real list"

record multibody_plant =
  link1_inertia :: spatial_inertia
  gravity_vector :: "real list"

record arm =
  m1 :: real
  m2 :: real
  l1 :: real
  l2 :: real
  plant :: multibody_plant
  arm_context :: plant_context

text \<open>The plant has two revolute joints, shoulder and elbow, hence two positions and
  two velocities.\<close>

definition num_positions :: nat where
  "num_positions = 2"

definition num_velocities :: nat where
  "num_velocities = 2"

text \<open>
  The library's \<open>MultibodyPlant\<close> has no attribute \<open>SetParameter\<close> and no attribute
  \<open>SetBodySpatialInertiaInBodyFrame\<close>: looking either up on \<open>self.plant\<close> raises
  \<open>AttributeError\<close>, before any argument is evaluated and with nothing written.
\<close>

definition SetParameter :: "plant_context \<Rightarrow> real list \<Rightarrow> error + plant_context" where
  "SetParameter c p = Inl AttributeError"

definition SetBodySpatialInertiaInBodyFrame ::
  "plant_context \<Rightarrow> spatial_inertia \<Rightarrow> error + plant_context" where
  "SetBodySpatialInertiaInBodyFrame c M = Inl AttributeError"

text \<open>\<open>SetPositions\<close> and \<open>SetVelocities\<close> are methods of the plant. They refuse a vector
  of the wrong size with an exception of the library's, and leave the context as it
  was.\<close>

definition SetPositions :: "plant_context \<Rightarrow> real list \<Rightarrow> error + plant_context" where
  "SetPositions c q =
     (if length q = num_positions then Inr (c\<lparr>positions := q\<rparr>) else Inl PlantError)"

definition SetVelocities :: "plant_context \<Rightarrow> real list \<Rightarrow> error + plant_context" where
  "SetVelocities c v =
     (if length v = num_velocities then Inr (c\<lparr>velocities := v\<rparr>) else Inl PlantError)"

text \<open>The module \<open>drake.multibody.plant\<close> has no attribute \<open>MultibodyForces\<close>: the
  expression \<open>drake.multibody.plant.MultibodyForces(self.plant)\<close> raises
  \<open>AttributeError\<close>.\<close>

definition MultibodyForces :: "multibody_plant \<Rightarrow> error + unit" where
  "MultibodyForces p = Inl AttributeError"

text \<open>Line 72, the composite centre of mass: \<open>(m2 * l2 / 2 + end_mass * l2) /
  total_mass2\<close>, every operation a float operation.\<close>

definition com2_of :: "real \<Rightarrow> real \<Rightarrow> real \<Rightarrow> error + real" where
  "com2_of m2' l2' end_mass =
     fdiv (fadd (half (fmul m2' l2')) (fmul end_mass l2')) (fadd m2' end_mass)"

text \<open>
  A float sum, product or quotient that is out of range is an infinity in Python, a value
  the model does not have. \<open>com2_finite\<close> says that no operation of line 72 is out of
  range: there the model computes what Python computes.
\<close>

definition com2_finite :: "real \<Rightarrow> real \<Rightarrow> real \<Rightarrow> bool" where
  "com2_finite m2' l2' end_mass =
     (\<not> overflows (m2' * l2')
      \<and> \<not> overflows (fmul m2' l2' / 2)
      \<and> \<not> overflows (end_mass * l2')
      \<and> \<not> overflows (half (fmul m2' l2') + fmul end_mass l2')
      \<and> \<not> overflows (m2' + end_mass)
      \<and> \<not> overflows (fadd (half (fmul m2' l2')) (fmul end_mass l2') / fadd m2' end_mass))"

text \<open>Line 73, the inertia scalar: \<open>m2 * (l2 / 2) ** 2 + end_mass * l2 ** 2\<close>. The left
  power is evaluated first.\<close>

definition I2_of :: "real \<Rightarrow> real \<Rightarrow> real \<Rightarrow> error + real" where
  "I2_of m2' l2' end_mass =
     (case fpow (half l2') 2 of
        Inl x \<Rightarrow> Inl x
      | Inr a \<Rightarrow>
          (case fpow l2' 2 of
             Inl x \<Rightarrow> Inl x
           | Inr b \<Rightarrow> Inr (fadd (fmul m2' a) (fmul end_mass b))))"

text \<open>
  \<open>set_end_mass\<close>, lines 69 to 84. Lines 71 to 73 compute local values; the first
  statement that would write is the call of line 76, which raises. So a failing call
  leaves the arm as it was, and the result is either the error or the updated arm.
\<close>

definition set_end_mass :: "arm \<Rightarrow> real \<Rightarrow> error + arm" where
  "set_end_mass self end_mass =
     (let total_mass2 = fadd (m2 self) end_mass in
      case com2_of (m2 self) (l2 self) end_mass of
        Inl x \<Rightarrow> Inl x
      | Inr com2 \<Rightarrow>
          (case I2_of (m2 self) (l2 self) end_mass of
             Inl x \<Rightarrow> Inl x
           | Inr I2 \<Rightarrow>
               (case SetParameter (arm_context self) [end_mass] of
                  Inl x \<Rightarrow> Inl x
                | Inr c1 \<Rightarrow>
                    (case SetBodySpatialInertiaInBodyFrame c1
                            \<lparr>mass = total_mass2, p_PScm_E = [com2, 0, 0],
                             G_SP_E = RotationalInertia I2 I2 I2\<rparr> of
                       Inl x \<Rightarrow> Inl x
                     | Inr c2 \<Rightarrow> Inr (self\<lparr>arm_context := c2\<rparr>)))))"

text \<open>
  \<open>calculate_inverse_dynamics\<close>, lines 86 to 95. The arguments of the call of line 93
  are evaluated before the call: the third raises. The solver \<open>cid\<close>, the library's
  \<open>CalcInverseDynamics\<close>, reads the plant, the context and the accelerations; \<^const>\<open>None\<close>
  is an exception raised inside it. The writes to the context are kept when a later
  statement raises, so the result is a pair of the outcome and the arm after the call.
\<close>

type_synonym solver = "multibody_plant \<Rightarrow> plant_context \<Rightarrow> real list \<Rightarrow> real list option"

definition calculate_inverse_dynamics ::
  "solver \<Rightarrow> arm \<Rightarrow> real list \<Rightarrow> real list \<Rightarrow> real list \<Rightarrow> (error + real list) \<times> arm" where
  "calculate_inverse_dynamics cid self q v vd =
     (case SetPositions (arm_context self) q of
        Inl e \<Rightarrow> (Inl e, self)
      | Inr c1 \<Rightarrow>
          (case SetVelocities c1 v of
             Inl e \<Rightarrow> (Inl e, self\<lparr>arm_context := c1\<rparr>)
           | Inr c2 \<Rightarrow>
               (case MultibodyForces (plant self) of
                  Inl e \<Rightarrow> (Inl e, self\<lparr>arm_context := c2\<rparr>)
                | Inr forces \<Rightarrow>
                    (case cid (plant self) c2 vd of
                       None \<Rightarrow> (Inl PlantError, self\<lparr>arm_context := c2\<rparr>)
                     | Some tau \<Rightarrow> (Inr tau, self\<lparr>arm_context := c2\<rparr>)))))"

text \<open>The arm without the positions and velocities its context stores: the four
  numbers, the plant, the end-mass parameter and link 2's spatial inertia.\<close>

definition model_state ::
  "arm \<Rightarrow> real \<times> real \<times> real \<times> real \<times> multibody_plant \<times> real list \<times> spatial_inertia" where
  "model_state self =
     (m1 self, m2 self, l1 self, l2 self, plant self,
      end_mass_param (arm_context self), link2_inertia (arm_context self))"

text \<open>The mass-weighted average the specification describes, in exact arithmetic.\<close>

definition weighted_average :: "real \<Rightarrow> real \<Rightarrow> real \<Rightarrow> real" where
  "weighted_average m2' l2' end_mass = (m2' * (l2' / 2) + end_mass * l2') / (m2' + end_mass)"

subsection \<open>Concrete instances\<close>

text \<open>
  An arm with the values of ControlGUI.py, every mass and length 0.5, and a context
  the update has not written; a solver that returns zero torques for an acceleration
  vector of the right size; and the doubles nearest to 0.1 and 0.7.
\<close>

definition gui_arm :: arm where
  "gui_arm =
     \<lparr>m1 = 1 / 2, m2 = 1 / 2, l1 = 1 / 2, l2 = 1 / 2,
      plant = \<lparr>link1_inertia =
                  \<lparr>mass = 1 / 2, p_PScm_E = [1 / 4, 0, 0],
                   G_SP_E = RotationalInertia (round_double (1 / 96)) (round_double (1 / 96))
                              (round_double (1 / 96))\<rparr>,
                gravity_vector = [0, round_double (- 981 / 100), 0]\<rparr>,
      arm_context =
        \<lparr>end_mass_param = [0],
         link2_inertia = \<lparr>mass = 0, p_PScm_E = [0, 0, 0],
                           G_SP_E = RotationalInertia 0 0 0\<rparr>,
         positions = [0, 0], velocities = [0, 0]\<rparr>\<rparr>"

definition zero_torque_solver :: solver where
  "zero_torque_solver p c vd = (if length vd = num_velocities then Some [0, 0] else None)"

definition double_0_1 :: real where
  "double_0_1 = 3602879701896397 / 2 ^ 55"

definition double_0_7 :: real where
  "double_0_7 = 3152519739159347 / 2 ^ 52"

section \<open>The control loop (main1.py, main)\<close>

text \<open>
  The loop talks to the servos through the transport and reads the wall clock; both are
  the environment of the model. What the loop does is recorded as a trace of events: the
  batches handed to \<open>transport.cycle\<close>, the lines printed and the sleeps.
\<close>

datatype register = POSITION | VELOCITY

datatype pyfloat = Float real | NaN

datatype command =
    make_stop nat
  | make_position nat "real option" pyfloat real bool

text \<open>The arguments of \<^const>\<open>make_position\<close> are the servo id, \<open>feedforward_torque\<close>
  (\<^const>\<open>None\<close> when the call leaves it out), \<open>position\<close>, \<open>velocity\<close> and \<open>query\<close>.\<close>

record result =
  arbitration_id :: nat
  register_values :: "register \<rightharpoonup> real"

text \<open>
  What \<open>transport.cycle\<close> returns is a Python object. The loop reads it twice: line 167
  takes its attribute \<open>values\<close> and subscripts it, lines 171 to 175 iterate over it.
  \<^const>\<open>None\<close> for the attribute is an object without it, such as a plain list, which is
  what the comment of line 157 says is returned.
\<close>

record cycle_results =
  values_attr :: "(register \<rightharpoonup> real) option"
  items :: "result list"

definition py_list :: "result list \<Rightarrow> cycle_results" where
  "py_list rs = \<lparr>values_attr = None, items = rs\<rparr>"

datatype event =
    Cycle "command list"
  | Print "(nat \<times> real \<times> real) list"
  | Sleep real

text \<open>The environment: \<open>clock i\<close> is what \<open>time.time()\<close> returns in iteration \<open>i\<close>, and
  \<open>cycle_reply k\<close> is the outcome of the \<open>k\<close>-th call of \<open>transport.cycle\<close>, counted from
  the stop cycle, \<^const>\<open>Inl\<close> when the call raises.\<close>

record env =
  clock :: "nat \<Rightarrow> real"
  cycle_reply :: "nat \<Rightarrow> command list \<Rightarrow> error + cycle_results"

definition stop_commands :: "command list" where
  "stop_commands = map make_stop [1, 2]"

definition position_commands :: "real \<Rightarrow> command list" where
  "position_commands now =
     [make_position 1 (Some 0) NaN (1 / 10 * sin now) True,
      make_position 2 None NaN (1 / 10 * sin (now + 1)) True]"

text \<open>The pieces of the printed line, lines 171 to 175: a result without a position or a
  velocity register makes the subscript raise.\<close>

fun format_results :: "result list \<Rightarrow> error + (nat \<times> real \<times> real) list" where
  "format_results [] = Inr []"
| "format_results (r # rs) =
     (case register_values r POSITION of
        None \<Rightarrow> Inl KeyError
      | Some p \<Rightarrow>
          (case register_values r VELOCITY of
             None \<Rightarrow> Inl KeyError
           | Some w \<Rightarrow>
               (case format_results rs of
                  Inl e \<Rightarrow> Inl e
                | Inr line \<Rightarrow> Inr ((arbitration_id r, p, w) # line))))"

text \<open>One pass through the body of the loop, lines 129 to 180: its events, and the
  exception that ended it, if any.\<close>

definition iteration :: "env \<Rightarrow> nat \<Rightarrow> event list \<times> error option" where
  "iteration e i =
     (let now = clock e i; commands = position_commands now in
      case cycle_reply e (Suc i) commands of
        Inl x \<Rightarrow> ([Cycle commands], Some x)
      | Inr results \<Rightarrow>
          (case values_attr results of
             None \<Rightarrow> ([Cycle commands], Some AttributeError)
           | Some vals \<Rightarrow>
               (case vals POSITION of
                  None \<Rightarrow> ([Cycle commands], Some KeyError)
                | Some q \<Rightarrow>
                    (case format_results (items results) of
                       Inl x \<Rightarrow> ([Cycle commands], Some x)
                     | Inr line \<Rightarrow> ([Cycle commands, Print line, Sleep (2 / 100)], None)))))"

text \<open>\<open>while True\<close> has no exit of its own: the loop ends by an exception or not at all.
  The first argument bounds the number of iterations looked at; \<^const>\<open>None\<close> as outcome
  says that the loop is still running after that many.\<close>

fun main_loop :: "nat \<Rightarrow> env \<Rightarrow> nat \<Rightarrow> event list \<times> error option" where
  "main_loop 0 e i = ([], None)"
| "main_loop (Suc n) e i =
     (case iteration e i of
        (evs, Some x) \<Rightarrow> (evs, Some x)
      | (evs, None) \<Rightarrow> (case main_loop n e (Suc i) of (tr, out) \<Rightarrow> (evs @ tr, out)))"

definition main :: "nat \<Rightarrow> env \<Rightarrow> event list \<times> error option" where
  "main n e =
     (case cycle_reply e 0 stop_commands of
        Inl x \<Rightarrow> ([Cycle stop_commands], Some x)
      | Inr r \<Rightarrow> (case main_loop n e 0 of (tr, out) \<Rightarrow> (Cycle stop_commands # tr, out)))"

text \<open>The durations of the sleeps of a trace, in order.\<close>

fun sleeps :: "event list \<Rightarrow> real list" where
  "sleeps [] = []"
| "sleeps (Sleep d # evs) = d # sleeps evs"
| "sleeps (ev # evs) = sleeps evs"

subsection \<open>Concrete environments\<close>

text \<open>
  \<open>main\<close> builds its transport itself, line 101: a \<open>Pi3HatRouter\<close>, whose \<open>cycle\<close> returns
  a list. The two environments are a transport whose every cycle returns the empty list
  (no servo answers), and one whose every cycle returns the results of both servos; the
  clock of the second advances by 25 ms per iteration.
\<close>

definition silent_env :: env where
  "silent_env = \<lparr>clock = (\<lambda>i. 0), cycle_reply = (\<lambda>k cs. Inr (py_list []))\<rparr>"

definition replying_env :: env where
  "replying_env =
     \<lparr>clock = (\<lambda>i. of_nat i / 40),
      cycle_reply = (\<lambda>k cs. Inr (py_list
        [\<lparr>arbitration_id = 1, register_values = [POSITION \<mapsto> 0, VELOCITY \<mapsto> 0]\<rparr>,
         \<lparr>arbitration_id = 2, register_values = [POSITION \<mapsto> 0, VELOCITY \<mapsto> 0]\<rparr>]))\<rparr>"

section \<open>Properties of the float arithmetic\<close>

lemma round_half_even_close: "\<bar>of_int (round_half_even y) - y\<bar> \<le> 1 / 2"
  unfolding round_half_even_def Let_def by (auto; linarith)

lemma ulp_pos: "0 < ulp x"
  by (simp add: ulp_def)

lemma round_double_0: "round_double 0 = 0"
  by (simp add: round_double_def)

lemma round_double_close: "\<bar>round_double x - x\<bar> \<le> ulp x / 2"
proof (cases "x = 0")
  case True
  then show ?thesis using ulp_pos [of x] by (simp add: round_double_def)
next
  case False
  have "round_double x - x = ulp x * (of_int (round_half_even (x / ulp x)) - x / ulp x)"
    using False ulp_pos [of x] by (simp add: round_double_def field_simps)
  then have "\<bar>round_double x - x\<bar> = ulp x * \<bar>of_int (round_half_even (x / ulp x)) - x / ulp x\<bar>"
    using ulp_pos [of x] by (simp add: abs_mult)
  also have "\<dots> \<le> ulp x * (1 / 2)"
    using round_half_even_close [of "x / ulp x"] ulp_pos [of x]
    by (intro mult_left_mono) auto
  finally show ?thesis by simp
qed

lemma ulp_normal:
  assumes "2 powr (- 1022) \<le> \<bar>x\<bar>"
  shows "ulp x \<le> 2 powr (- 52) * \<bar>x\<bar>"
proof -
  from assms have pos: "0 < \<bar>x\<bar>" by (smt (verit) powr_gt_zero)
  have "- 1022 \<le> log 2 \<bar>x\<bar>"
    using assms pos by (simp add: le_log_iff)
  then have "(- 1022 :: int) \<le> \<lfloor>log 2 \<bar>x\<bar>\<rfloor>" by (simp add: le_floor_iff)
  then have e: "exponent x = \<lfloor>log 2 \<bar>x\<bar>\<rfloor>" by (simp add: exponent_def)
  have "2 powr (of_int \<lfloor>log 2 \<bar>x\<bar>\<rfloor>) \<le> 2 powr (log 2 \<bar>x\<bar>)"
    by (intro powr_mono) auto
  also have "\<dots> = \<bar>x\<bar>" using pos by simp
  finally have "2 powr (of_int \<lfloor>log 2 \<bar>x\<bar>\<rfloor>) \<le> \<bar>x\<bar>" .
  moreover have "ulp x = 2 powr (- 52) * 2 powr (of_int \<lfloor>log 2 \<bar>x\<bar>\<rfloor>)"
    by (simp add: ulp_def e powr_add [symmetric])
  ultimately show ?thesis by simp
qed

lemma ulp_subnormal:
  assumes "\<bar>x\<bar> < 2 powr (- 1022)" and "x \<noteq> 0"
  shows "ulp x = 2 powr (- 1074)"
proof -
  from assms have pos: "0 < \<bar>x\<bar>" by simp
  have "log 2 \<bar>x\<bar> < - 1022"
    using assms pos by (simp add: log_less_iff)
  then have "\<lfloor>log 2 \<bar>x\<bar>\<rfloor> \<le> (- 1022 :: int)" by (simp add: floor_le_iff)
  then have "exponent x = - 1022" by (simp add: exponent_def)
  then show ?thesis by (simp add: ulp_def)
qed

lemma round_double_rel:
  assumes "2 powr (- 1022) \<le> \<bar>x\<bar>"
  shows "\<bar>round_double x - x\<bar> \<le> 2 powr (- 53) * \<bar>x\<bar>"
proof -
  have "\<bar>round_double x - x\<bar> \<le> ulp x / 2" by (rule round_double_close)
  also have "\<dots> \<le> (2 powr (- 52) * \<bar>x\<bar>) / 2"
    using ulp_normal [OF assms] by simp
  also have "\<dots> = 2 powr (- 53) * \<bar>x\<bar>"
  proof -
    have "(2::real) powr (- 52) = 2 * 2 powr (- 53)"
      by (simp add: powr_minus)
    then show ?thesis by simp
  qed
  finally show ?thesis .
qed

lemma round_double_eq_0:
  assumes "round_double x = 0"
  shows "\<bar>x\<bar> \<le> 2 powr (- 1075)"
proof (cases "x = 0")
  case True
  then show ?thesis by simp
next
  case False
  show ?thesis
  proof (cases "2 powr (- 1022) \<le> \<bar>x\<bar>")
    case True
    from round_double_rel [OF True] assms have "\<bar>x\<bar> \<le> 2 powr (- 53) * \<bar>x\<bar>" by simp
    moreover have "(2::real) powr (- 53) < 1" by (simp add: powr_minus)
    ultimately have "\<bar>x\<bar> \<le> 0"
      by (smt (verit) mult_less_cancel_right2 abs_ge_zero)
    with False show ?thesis by simp
  next
    case sub: False
    then have "ulp x = 2 powr (- 1074)" using False by (simp add: ulp_subnormal)
    with round_double_close [of x] assms have "\<bar>x\<bar> \<le> 2 powr (- 1074) / 2" by simp
    moreover have "(2::real) powr (- 1074) = 2 * 2 powr (- 1075)"
      by (simp add: powr_minus)
    ultimately show ?thesis by simp
  qed
qed


lemma round_half_even_nonneg: "0 \<le> y \<Longrightarrow> 0 \<le> round_half_even y"
  unfolding round_half_even_def Let_def by (auto; linarith)

lemma round_double_nonneg: "0 \<le> x \<Longrightarrow> 0 \<le> round_double x"
  using ulp_pos [of x] round_half_even_nonneg [of "x / ulp x"]
  by (simp add: round_double_def)

lemma double_multiple:
  assumes "is_double x"
  shows "\<exists>k::int. x = of_int k * 2 powr (- 1074)"
proof (cases "x = 0")
  case True
  then have "x = of_int 0 * 2 powr (- 1074)" by simp
  then show ?thesis by blast
next
  case False
  define n where "n = round_half_even (x / ulp x)"
  define j where "j = nat (exponent x + 1022)"
  have "- 1022 \<le> exponent x" by (simp add: exponent_def)
  then have "of_int (exponent x - 52) = - 1074 + real j"
    by (simp add: j_def)
  then have "ulp x = 2 powr (- 1074 + real j)"
    by (simp only: ulp_def)
  then have "ulp x = 2 powr (- 1074) * 2 powr (real j)"
    by (simp only: powr_add)
  also have "\<dots> = 2 powr (- 1074) * 2 ^ j"
    by (simp add: powr_realpow)
  finally have u: "ulp x = 2 powr (- 1074) * 2 ^ j" .
  from assms False have "x = ulp x * of_int n"
    by (simp add: is_double_def round_double_def n_def)
  with u have "x = of_int (n * 2 ^ j) * 2 powr (- 1074)"
    by simp
  then show ?thesis by blast
qed

lemma multiple_bound:
  fixes x :: real
  assumes "x = of_int k * 2 powr (- 1074)" and "x \<noteq> 0"
  shows "2 powr (- 1074) \<le> \<bar>x\<bar>"
proof -
  from assms have "k \<noteq> 0" by auto
  then have "1 \<le> \<bar>k\<bar>" by simp
  then have "(1::real) \<le> of_int \<bar>k\<bar>" by (simp only: of_int_1_le_iff)
  then have "1 \<le> \<bar>of_int k :: real\<bar>" by simp
  then have "1 * 2 powr (- 1074) \<le> \<bar>of_int k :: real\<bar> * 2 powr (- 1074)"
    by (intro mult_right_mono) auto
  with assms show ?thesis by (simp add: abs_mult)
qed


lemma round_double_nonzero:
  assumes "2 powr (- 1074) \<le> \<bar>x\<bar>"
  shows "round_double x \<noteq> 0"
proof
  assume "round_double x = 0"
  from round_double_eq_0 [OF this] assms have "(2::real) powr (- 1074) \<le> 2 powr (- 1075)"
    by linarith
  moreover have "(2::real) powr (- 1075) < 2 powr (- 1074)"
    by (rule powr_less_mono) simp_all
  ultimately show False by linarith
qed


lemma fadd_positive:
  assumes "is_double a" and "0 < a" and "0 \<le> b"
  shows "0 < fadd a b"
proof -
  from double_multiple [OF assms(1)] obtain k :: int where "a = of_int k * 2 powr (- 1074)"
    by blast
  from multiple_bound [OF this] assms have "2 powr (- 1074) \<le> \<bar>a + b\<bar>" by simp
  from round_double_nonzero [OF this] round_double_nonneg [of "a + b"] assms
  show ?thesis by (simp add: fadd_def)
qed

lemma fadd_opposite: "fadd a (- a) = 0"
  by (simp add: fadd_def round_double_0)

lemma powr_1074_small: "(2::real) powr (- 1074) \<le> 1 / 8"
proof -
  have "(2::real) powr (- 3) = 1 / 8"
    by (simp add: powr_minus)
  moreover have "(2::real) powr (- 1074) \<le> 2 powr (- 3)" by (rule powr_mono) simp_all
  ultimately show ?thesis by linarith
qed

lemma powr_1022_small: "(2::real) powr (- 1022) \<le> 1 / 8"
proof -
  have "(2::real) powr (- 3) = 1 / 8"
    by (simp add: powr_minus)
  moreover have "(2::real) powr (- 1022) \<le> 2 powr (- 3)" by (rule powr_mono) simp_all
  ultimately show ?thesis by linarith
qed

lemma not_overflows_small: "\<bar>y\<bar> \<le> 1 \<Longrightarrow> \<not> overflows y"
proof -
  have "(2::real) ^ 1024 - 2 ^ 970 = 2 ^ 970 * (2 ^ 54 - 1)"
    by (simp add: algebra_simps flip: power_add)
  moreover have "(1::real) < 2 ^ 970 * (2 ^ 54 - 1)"
  proof -
    have "(1::real) \<le> 2 ^ 970" by simp
    moreover have "(1::real) < 2 ^ 54 - 1" by simp
    ultimately show ?thesis
      by (smt (verit) mult_le_cancel_right1 mult_less_cancel_left1)
  qed
  ultimately show "\<bar>y\<bar> \<le> 1 \<Longrightarrow> \<not> overflows y"
    by (simp add: overflows_def)
qed

lemma round_double_le_twice:
  assumes "2 powr (- 1022) \<le> \<bar>x\<bar>"
  shows "\<bar>round_double x\<bar> \<le> 2 * \<bar>x\<bar>"
proof -
  have "(2::real) powr (- 53) \<le> 1" by (simp add: powr_minus)
  then have "2 powr (- 53) * \<bar>x\<bar> \<le> 1 * \<bar>x\<bar>"
    by (intro mult_right_mono) auto
  with round_double_rel [OF assms] show ?thesis by linarith
qed

lemma set_end_mass_eq:
  "set_end_mass self e =
     (case com2_of (m2 self) (l2 self) e of
        Inl x \<Rightarrow> Inl x
      | Inr c \<Rightarrow> (case I2_of (m2 self) (l2 self) e of Inl x \<Rightarrow> Inl x | Inr i \<Rightarrow> Inl AttributeError))"
  by (simp add: set_end_mass_def SetParameter_def split: sum.splits)

lemma com2_of_cases:
  "com2_of m l e = Inl ZeroDivisionError \<and> fadd m e = 0
   \<or> (\<exists>c. com2_of m l e = Inr c) \<and> fadd m e \<noteq> 0"
  by (simp add: com2_of_def fdiv_def)

lemma I2_of_cases:
  "I2_of m l e = Inl OverflowError \<or> (\<exists>i. I2_of m l e = Inr i)"
  by (simp add: I2_of_def fpow_def)

lemma set_end_mass_never_returns: "set_end_mass self e \<noteq> Inr self'"
  by (simp add: set_end_mass_eq split: sum.splits)

lemma set_end_mass_raises:
  "set_end_mass self e = Inl ZeroDivisionError \<and> fadd (m2 self) e = 0
   \<or> set_end_mass self e = Inl OverflowError \<and> fadd (m2 self) e \<noteq> 0
   \<or> set_end_mass self e = Inl AttributeError \<and> fadd (m2 self) e \<noteq> 0"
  using com2_of_cases [of "m2 self" "l2 self" e] I2_of_cases [of "m2 self" "l2 self" e]
  by (auto simp: set_end_mass_eq)

lemma set_end_mass_zero_division:
  "set_end_mass self e = Inl ZeroDivisionError \<longleftrightarrow> fadd (m2 self) e = 0"
  using set_end_mass_raises [of self e] by auto

lemma fpow_half_returns:
  "fpow (half (1 / 2)) 2 = Inr (round_double ((half (1 / 2)) ^ 2))"
  "fpow (1 / 2) 2 = Inr (round_double ((1 / 2) ^ 2))"
proof -
  have "(2::real) powr (- 1022) \<le> \<bar>1 / 2 / 2\<bar>"
    using powr_1022_small by simp
  from round_double_le_twice [OF this] have "\<bar>half (1 / 2)\<bar> \<le> 1 / 2"
    by (simp add: half_def)
  then have "\<bar>half (1 / 2)\<bar> ^ 2 \<le> (1 / 2) ^ 2"
    by (intro power_mono) auto
  then have "\<bar>(half (1 / 2)) ^ 2\<bar> \<le> 1"
    by (simp add: power_abs power2_eq_square)
  then have a: "\<not> overflows ((half (1 / 2)) ^ 2)" by (rule not_overflows_small)
  have "\<bar>(1 / 2 :: real) ^ 2\<bar> \<le> 1" by (simp add: power2_eq_square)
  then have b: "\<not> overflows ((1 / 2 :: real) ^ 2)" by (rule not_overflows_small)
  show "fpow (half (1 / 2)) 2 = Inr (round_double ((half (1 / 2)) ^ 2))"
    unfolding fpow_def using a by (rule if_not_P)
  show "fpow (1 / 2) 2 = Inr (round_double ((1 / 2) ^ 2))"
    unfolding fpow_def using b by (rule if_not_P)
qed

lemma gui_arm_update:
  assumes "fadd (1 / 2) e \<noteq> 0"
  shows "set_end_mass gui_arm e = Inl AttributeError"
proof -
  have m: "m2 gui_arm = 1 / 2" "l2 gui_arm = 1 / 2" by (simp_all add: gui_arm_def)
  have "\<exists>i. I2_of (1 / 2) (1 / 2) e = Inr i"
    by (simp only: I2_of_def fpow_half_returns sum.case) blast
  moreover from assms com2_of_cases [of "1 / 2" "1 / 2" e]
  have "\<exists>c. com2_of (1 / 2) (1 / 2) e = Inr c" by auto
  ultimately show ?thesis
    by (auto simp: set_end_mass_eq m)
qed

lemma exponent_eq:
  assumes "- 1022 \<le> k" and "2 powr (of_int k) \<le> \<bar>x\<bar>" and "\<bar>x\<bar> < 2 powr (of_int k + 1)"
  shows "exponent x = k"
proof -
  from assms(2) have pos: "0 < \<bar>x\<bar>" by (smt (verit) powr_gt_zero)
  have "of_int k \<le> log 2 \<bar>x\<bar>" using assms(2) pos by (simp add: le_log_iff)
  moreover have "log 2 \<bar>x\<bar> < of_int k + 1" using assms(3) pos by (simp add: log_less_iff)
  ultimately have "\<lfloor>log 2 \<bar>x\<bar>\<rfloor> = k" by (rule floor_unique)
  with assms(1) show ?thesis by (simp add: exponent_def)
qed

lemma round_half_even_of_int: "round_half_even (of_int n) = n"
  by (simp add: round_half_even_def)

lemma round_double_exact:
  assumes "- 1022 \<le> k" and "x = of_int n * 2 powr (of_int k - 52)"
    and "2 ^ 52 \<le> \<bar>n\<bar>" and "\<bar>n\<bar> < 2 ^ 53"
  shows "round_double x = x"
proof -
  have q: "(0::real) < 2 powr (of_int k - 52)" by simp
  have n: "(2::real) ^ 52 \<le> \<bar>of_int n\<bar>" "\<bar>of_int n :: real\<bar> < 2 ^ 53"
    using assms(3,4) by (metis of_int_abs of_int_le_iff of_int_numeral of_int_power,
        metis of_int_abs of_int_less_iff of_int_numeral of_int_power)
  have ax: "\<bar>x\<bar> = \<bar>of_int n\<bar> * 2 powr (of_int k - 52)"
    by (simp add: assms(2) abs_mult)
  have p52: "(2::real) powr 52 = 2 ^ 52" and p53: "(2::real) powr 53 = 2 ^ 53"
    by (simp_all only: powr_numeral zero_less_numeral)
  have "(2::real) powr (of_int k) = 2 powr (52 + (of_int k - 52))"
    by simp
  also have "\<dots> = 2 ^ 52 * 2 powr (of_int k - 52)"
    by (simp only: powr_add p52)
  also have "\<dots> \<le> \<bar>x\<bar>" unfolding ax using n(1) q by (intro mult_right_mono) auto
  finally have lo: "2 powr (of_int k) \<le> \<bar>x\<bar>" .
  have "\<bar>x\<bar> < 2 ^ 53 * 2 powr (of_int k - 52)"
    unfolding ax using n(2) q by (intro mult_strict_right_mono) auto
  also have "\<dots> = 2 powr (53 + (of_int k - 52))"
    by (simp only: powr_add p53)
  also have "\<dots> = 2 powr (of_int k + 1)"
  proof -
    have "53 + (real_of_int k - 52) = of_int k + 1" by simp
    then show ?thesis by (simp only:)
  qed
  finally have hi: "\<bar>x\<bar> < 2 powr (of_int k + 1)" .
  have e: "exponent x = k" by (rule exponent_eq [OF assms(1) lo hi])
  then have u: "ulp x = 2 powr (of_int k - 52)" by (simp add: ulp_def)
  from lo have nz: "x \<noteq> 0" by (smt (verit) powr_gt_zero abs_zero)
  have "x / ulp x = x / 2 powr (of_int k - 52)" by (simp only: u)
  also have "\<dots> = of_int n" using q by (simp add: assms(2))
  finally have "round_half_even (x / ulp x) = n" by (simp only: round_half_even_of_int)
  then have "round_double x = ulp x * of_int n"
    using nz by (simp only: round_double_def if_False)
  also have "\<dots> = 2 powr (of_int k - 52) * of_int n" by (simp only: u)
  also have "\<dots> = x" by (simp only: assms(2) mult.commute)
  finally show ?thesis .
qed

lemma is_double_exact:
  assumes "- 1022 \<le> k" and "x = of_int n * 2 powr (of_int k - 52)"
    and "2 ^ 52 \<le> \<bar>n\<bar>" and "\<bar>n\<bar> < 2 ^ 53" and "\<bar>x\<bar> \<le> 1"
  shows "is_double x"
  using round_double_exact [OF assms(1-4)] not_overflows_small [OF assms(5)]
  by (simp add: is_double_def)

lemma is_double_half: "is_double (1 / 2)"
  by (rule is_double_exact [where k = "- 1" and n = "2 ^ 52"]) (simp_all add: powr_minus)


lemma round_half_even_bracket:
  assumes "of_int n - 1 / 2 < y" and "y < of_int n + 1 / 2"
  shows "round_half_even y = n"
proof -
  have "\<lfloor>y\<rfloor> = n \<or> \<lfloor>y\<rfloor> = n - 1" using assms by linarith
  then show ?thesis
  proof
    assume f: "\<lfloor>y\<rfloor> = n"
    then have "y - of_int \<lfloor>y\<rfloor> < 1 / 2" using assms by simp
    then show ?thesis by (simp add: round_half_even_def Let_def f)
  next
    assume f: "\<lfloor>y\<rfloor> = n - 1"
    then have "1 / 2 < y - of_int \<lfloor>y\<rfloor>" using assms by simp
    then show ?thesis by (simp add: round_half_even_def Let_def f)
  qed
qed

lemma round_double_bracket:
  assumes k: "- 1022 \<le> k"
    and lo: "2 powr (of_int k) \<le> \<bar>x\<bar>" and hi: "\<bar>x\<bar> < 2 powr (of_int k + 1)"
    and a: "of_int n - 1 / 2 < x / 2 powr (of_int k - 52)"
    and b: "x / 2 powr (of_int k - 52) < of_int n + 1 / 2"
  shows "round_double x = of_int n * 2 powr (of_int k - 52)"
proof -
  have e: "exponent x = k" by (rule exponent_eq [OF k lo hi])
  then have u: "ulp x = 2 powr (of_int k - 52)" by (simp add: ulp_def)
  from lo have nz: "x \<noteq> 0" by (smt (verit) powr_gt_zero abs_zero)
  have "round_half_even (x / ulp x) = n"
    unfolding u using a b by (rule round_half_even_bracket)
  then have "round_double x = ulp x * of_int n"
    using nz by (simp only: round_double_def if_False)
  then show ?thesis by (simp only: u mult.commute)
qed

lemma product_0_1_0_7:
  "fmul double_0_1 double_0_7 = 5044031582654955 / 2 ^ 56"
proof -
  have "round_double (double_0_1 * double_0_7)
        = of_int 5044031582654955 * 2 powr (of_int (- 4) - 52)"
    by (rule round_double_bracket)
      (simp_all add: double_0_1_def double_0_7_def powr_minus)
  then show ?thesis by (simp add: fmul_def powr_minus)
qed

lemma half_product_0_1_0_7:
  "half (5044031582654955 / 2 ^ 56) = 5044031582654955 / 2 ^ 57"
proof -
  have "is_double (5044031582654955 / 2 ^ 57)"
    by (rule is_double_exact [where k = "- 5" and n = 5044031582654955])
      (simp_all add: powr_minus)
  then show ?thesis by (simp add: half_def is_double_def)
qed

lemma is_double_0_1: "is_double double_0_1"
  by (rule is_double_exact [where k = "- 4" and n = 7205759403792794])
    (simp_all add: double_0_1_def powr_minus)

lemma is_double_0_7: "is_double double_0_7"
  by (rule is_double_exact [where k = "- 1" and n = 6305039478318694])
    (simp_all add: double_0_7_def powr_minus)

lemma half_0_7: "half double_0_7 = double_0_7 / 2"
proof -
  have "is_double (double_0_7 / 2)"
    by (rule is_double_exact [where k = "- 2" and n = 6305039478318694])
      (simp_all add: double_0_7_def powr_minus)
  then show ?thesis by (simp add: half_def is_double_def)
qed

lemma quotient_0_1_0_7:
  "round_double (5044031582654955 / 2 ^ 57 / double_0_1) = 6305039478318693 / 2 ^ 54"
proof -
  have "round_double (5044031582654955 / 2 ^ 57 / double_0_1)
        = of_int 6305039478318693 * 2 powr (of_int (- 2) - 52)"
    by (rule round_double_bracket) (simp_all add: double_0_1_def powr_minus)
  then show ?thesis by (simp add: powr_minus)
qed

lemma com2_of_0_1_0_7:
  "com2_of double_0_1 double_0_7 0 = Inr (6305039478318693 / 2 ^ 54)"
proof -
  have z: "fmul 0 double_0_7 = 0" by (simp add: fmul_def round_double_0)
  have p: "half (fmul double_0_1 double_0_7) = 5044031582654955 / 2 ^ 57"
    by (simp only: product_0_1_0_7 half_product_0_1_0_7)
  have "is_double (5044031582654955 / 2 ^ 57)"
    by (rule is_double_exact [where k = "- 5" and n = 5044031582654955])
      (simp_all add: powr_minus)
  then have s: "fadd (5044031582654955 / 2 ^ 57) 0 = 5044031582654955 / 2 ^ 57"
    by (simp add: fadd_def is_double_def)
  have t: "fadd double_0_1 0 = double_0_1"
    using is_double_0_1 by (simp add: fadd_def is_double_def)
  have nz: "double_0_1 \<noteq> 0" by (simp add: double_0_1_def)
  show ?thesis
    unfolding com2_of_def z p s t fdiv_def using nz
    by (simp only: if_False quotient_0_1_0_7)
qed

lemma round_double_between:
  assumes "2 powr (- 1022) \<le> x"
  shows "(1 - 2 powr (- 53)) * x \<le> round_double x"
    and "round_double x \<le> (1 + 2 powr (- 53)) * x"
proof -
  have "0 < x" using assms by (smt (verit) powr_gt_zero)
  then have ax: "\<bar>x\<bar> = x" by simp
  from assms have "2 powr (- 1022) \<le> \<bar>x\<bar>" by (simp only: ax)
  then have "\<bar>round_double x - x\<bar> \<le> 2 powr (- 53) * \<bar>x\<bar>" by (rule round_double_rel)
  then have r: "\<bar>round_double x - x\<bar> \<le> 2 powr (- 53) * x" by (simp only: ax)
  from r show "(1 - 2 powr (- 53)) * x \<le> round_double x"
    by (simp add: algebra_simps abs_le_iff)
  from r show "round_double x \<le> (1 + 2 powr (- 53)) * x"
    by (simp add: algebra_simps abs_le_iff)
qed

lemma weighted_average_bounds:
  assumes "0 < m" and "0 < l" and "0 \<le> e"
  shows "l / 2 \<le> weighted_average m l e" and "weighted_average m l e \<le> l"
proof -
  have d: "0 < m + e" using assms by simp
  have "l / 2 * (m + e) \<le> m * (l / 2) + e * l"
    using assms by (simp add: algebra_simps mult_nonneg_nonneg)
  then show "l / 2 \<le> weighted_average m l e"
    unfolding weighted_average_def using d by (simp add: pos_le_divide_eq)
  have "m * (l / 2) + e * l \<le> l * (m + e)"
    using assms by (simp add: algebra_simps)
  then show "weighted_average m l e \<le> l"
    unfolding weighted_average_def using d by (simp add: pos_divide_le_eq)
qed

lemma big_bound: "(16::real) * 2 powr 1000 < 2 ^ 1024 - 2 ^ 970"
proof -
  have "(2::real) powr 1000 = 2 ^ 1000" by (simp only: powr_numeral zero_less_numeral)
  then show ?thesis by simp
qed

lemma not_overflows_le:
  assumes "0 \<le> x" and "x \<le> 16 * 2 powr 1000"
  shows "\<not> overflows x"
  using assms big_bound unfolding overflows_def by linarith

lemma com2_of_rounding:
  fixes m l e :: real
  assumes m: "2 powr (- 500) \<le> m" and l: "2 powr (- 500) \<le> l"
    and e: "e = 0 \<or> 2 powr (- 500) \<le> e"
    and mh: "m \<le> 2 powr 500" and lh: "l \<le> 2 powr 500" and eh: "e \<le> 2 powr 500"
  shows "com2_finite m l e
    \<and> (\<exists>c. com2_of m l e = Inr c
      \<and> (1 - 2 powr (- 53)) ^ 4 / (1 + 2 powr (- 53)) * weighted_average m l e \<le> c
      \<and> c \<le> (1 + 2 powr (- 53)) ^ 4 / (1 - 2 powr (- 53)) * weighted_average m l e)"
proof -
  define a :: real where "a = 1 - 2 powr (- 53)"
  define b :: real where "b = 1 + 2 powr (- 53)"
  have u: "(0::real) < 2 powr (- 53)" "(2::real) powr (- 53) \<le> 1 / 2"
    by (simp_all add: powr_minus)
  have a: "1 / 2 \<le> a" "a \<le> 1" "0 < a" and b: "1 \<le> b" "b \<le> 2" "0 < b"
    using u unfolding a_def b_def by linarith+
  have B: "(0::real) < 2 powr (- 500)" by simp
  have B2: "(2::real) powr (- 1000) = 2 powr (- 500) * 2 powr (- 500)"
    by (simp flip: powr_add)
  have t1: "(2::real) powr (- 1022) \<le> 2 powr (- 1000) / 32"
  proof -
    have A: "(2::real) powr (- 1005) = 2 powr (- 1000) * 2 powr (- 5)"
      by (simp flip: powr_add)
    have B: "(2::real) powr (- 5) = 1 / 32" by (simp add: powr_minus)
    have "(2::real) powr (- 1005) = 2 powr (- 1000) / 32" unfolding A B by simp
    moreover have "(2::real) powr (- 1022) \<le> 2 powr (- 1005)" by (rule powr_mono) simp_all
    ultimately show ?thesis by linarith
  qed
  have t2: "(2::real) powr (- 1022) \<le> 2 powr (- 500) / 32"
  proof -
    have A: "(2::real) powr (- 505) = 2 powr (- 500) * 2 powr (- 5)"
      by (simp flip: powr_add)
    have B: "(2::real) powr (- 5) = 1 / 32" by (simp add: powr_minus)
    have "(2::real) powr (- 505) = 2 powr (- 500) / 32" unfolding A B by simp
    moreover have "(2::real) powr (- 1022) \<le> 2 powr (- 505)" by (rule powr_mono) simp_all
    ultimately show ?thesis by linarith
  qed
  have P: "(0::real) < 2 powr (- 1000)" by simp
  have mpos: "0 < m" and lpos: "0 < l" using m l B by linarith+
  have epos: "0 \<le> e"
  proof (cases "e = 0")
    case True
    then show ?thesis by simp
  next
    case False
    with e have "2 powr (- 500) \<le> e" by simp
    with B show ?thesis by linarith
  qed
  define x1 where "x1 = m * l"
  define p1 where "p1 = round_double x1"
  define x2 where "x2 = p1 / 2"
  define p2 where "p2 = round_double x2"
  define x3 where "x3 = e * l"
  define p3 where "p3 = round_double x3"
  define x4 where "x4 = p2 + p3"
  define s where "s = round_double x4"
  define x5 where "x5 = m + e"
  define t where "t = round_double x5"
  define x6 where "x6 = s / t"
  define c where "c = round_double x6"
  define N where "N = x1 / 2 + x3"
  have x1: "2 powr (- 1000) \<le> x1"
    unfolding x1_def B2 using m l mpos by (intro mult_mono) auto
  have x1pos: "0 < x1" using x1 P by linarith
  have "2 powr (- 1022) \<le> x1" using x1 t1 P by linarith
  then have p1: "a * x1 \<le> p1" "p1 \<le> b * x1"
    unfolding a_def b_def p1_def by (rule round_double_between)+
  have "1 / 2 * x1 \<le> a * x1" using a(1) x1pos by (intro mult_right_mono) auto
  with p1(1) have p1lo: "x1 / 2 \<le> p1" by simp
  have x2lo: "x1 / 4 \<le> x2" using p1lo by (simp add: x2_def)
  then have x2pos: "0 < x2" using x1pos by linarith
  have "2 powr (- 1022) \<le> x2" using x2lo x1 t1 P by linarith
  then have p2: "a * x2 \<le> p2" "p2 \<le> b * x2"
    unfolding a_def b_def p2_def by (rule round_double_between)+
  have "1 / 2 * x2 \<le> a * x2" using a(1) x2pos by (intro mult_right_mono) auto
  with p2(1) x2lo have p2lo: "x1 / 8 \<le> p2" by simp
  have x3nn: "0 \<le> x3" using epos lpos by (simp add: x3_def)
  have p3: "a * x3 \<le> p3 \<and> p3 \<le> b * x3"
  proof (cases "e = 0")
    case True
    then show ?thesis by (simp add: x3_def p3_def round_double_0)
  next
    case False
    with e have "2 powr (- 500) \<le> e" by simp
    then have "2 powr (- 1000) \<le> x3"
      unfolding x3_def B2 using l epos by (intro mult_mono) auto
    then have "2 powr (- 1022) \<le> x3" using t1 P by linarith
    then have "a * x3 \<le> p3" "p3 \<le> b * x3"
      unfolding a_def b_def p3_def by (rule round_double_between)+
    then show ?thesis by simp
  qed
  have ax3: "0 \<le> a * x3" using a(3) x3nn by simp
  with p3 have p3nn: "0 \<le> p3" by linarith
  have x4lo: "x1 / 8 \<le> x4" using p2lo p3nn by (simp add: x4_def)
  then have x4pos: "0 < x4" using x1pos by linarith
  have "2 powr (- 1022) \<le> x4" using x4lo x1 t1 P by linarith
  then have s: "a * x4 \<le> s" "s \<le> b * x4"
    unfolding a_def b_def s_def by (rule round_double_between)+
  have x5lo: "2 powr (- 500) \<le> x5" using m epos by (simp add: x5_def)
  then have x5pos: "0 < x5" using B by linarith
  have "2 powr (- 1022) \<le> x5" using x5lo t2 B by linarith
  then have t: "a * x5 \<le> t" "t \<le> b * x5"
    unfolding a_def b_def t_def by (rule round_double_between)+
  have ax5: "0 < a * x5" using a(3) x5pos by simp
  with t(1) have tpos: "0 < t" by linarith
  have Nnn: "0 \<le> N" using x1pos x3nn by (simp add: N_def)
  have "a * (a * x1 / 2) \<le> a * x2"
    unfolding x2_def using p1(1) a(3) by (intro mult_left_mono) auto
  with p2(1) have p2a: "a * a * (x1 / 2) \<le> p2" by (simp add: mult.assoc)
  have "a * (a * x3) \<le> 1 * (a * x3)" using a(2) ax3 by (intro mult_right_mono) auto
  with p3 have p3a: "a * a * x3 \<le> p3" by (simp add: mult.assoc)
  have "a * a * N \<le> x4"
    using p2a p3a by (simp add: N_def x4_def algebra_simps)
  then have "a * (a * a * N) \<le> a * x4" using a(3) by (intro mult_left_mono) auto
  with s(1) have slo: "a * a * a * N \<le> s" by (simp add: mult.assoc)
  have "b * x2 \<le> b * (b * x1 / 2)"
    unfolding x2_def using p1(2) b(3) by (intro mult_left_mono) auto
  with p2(2) have p2b: "p2 \<le> b * b * (x1 / 2)" by (simp add: mult.assoc)
  have bx3: "0 \<le> b * x3" using b(3) x3nn by simp
  have "1 * (b * x3) \<le> b * (b * x3)" using b(1) bx3 by (intro mult_right_mono) auto
  with p3 have p3b: "p3 \<le> b * b * x3" by (simp add: mult.assoc)
  have x4hi: "x4 \<le> b * b * N"
    using p2b p3b by (simp add: N_def x4_def algebra_simps)
  then have "b * x4 \<le> b * (b * b * N)" using b(3) by (intro mult_left_mono) auto
  with s(2) have shi: "s \<le> b * b * b * N" by (simp add: mult.assoc)
  have aN: "0 \<le> a * a * a * N" using a(3) Nnn by simp
  with slo have snn: "0 \<le> s" by linarith
  have bx5: "0 < b * x5" using b(3) x5pos by simp
  have qlo: "a * a * a * N / (b * x5) \<le> x6"
    unfolding x6_def using snn slo tpos t(2) by (rule frac_le)
  have bN: "0 \<le> b * b * b * N" using b(3) Nnn by simp
  have qhi: "x6 \<le> b * b * b * N / (a * x5)"
    unfolding x6_def using bN shi ax5 t(1) by (rule frac_le)
  have W: "weighted_average m l e = N / x5"
    by (simp add: weighted_average_def N_def x1_def x3_def x5_def)
  have Wlo: "l / 2 \<le> N / x5"
    using weighted_average_bounds(1) [OF mpos lpos epos] by (simp only: W)
  have Wpos: "0 < N / x5" using Wlo lpos by linarith
  have "1 / 8 \<le> a * a * a"
  proof -
    have "1 / 2 * (1 / 2) \<le> a * a" using a by (intro mult_mono) auto
    then have "1 / 4 * (1 / 2) \<le> a * a * a" using a by (intro mult_mono) auto
    then show ?thesis by simp
  qed
  moreover have "1 / b \<ge> 1 / 2" using b by (simp add: field_simps)
  ultimately have "1 / 8 * (1 / 2) \<le> a * a * a * (1 / b)"
    by (intro mult_mono) auto
  then have "1 / 16 * (N / x5) \<le> a * a * a * (1 / b) * (N / x5)"
    using Wpos by (intro mult_right_mono) auto
  also have "\<dots> = a * a * a * N / (b * x5)" by simp
  finally have "l / 32 \<le> a * a * a * N / (b * x5)" using Wlo by linarith
  with qlo have x6lo: "l / 32 \<le> x6" by linarith
  have "2 powr (- 1022) \<le> x6" using x6lo l t2 by linarith
  then have cc: "a * x6 \<le> c" "c \<le> b * x6"
    unfolding a_def b_def c_def by (rule round_double_between)+
  have "a * (a * a * a * N / (b * x5)) \<le> a * x6"
    using qlo a(3) by (intro mult_left_mono) auto
  with cc(1) have "a * (a * a * a * N / (b * x5)) \<le> c" by linarith
  moreover have "a * (a * a * a * N / (b * x5)) = a ^ 4 / b * (N / x5)"
    by (simp add: power4_eq_xxxx)
  ultimately have lo: "a ^ 4 / b * weighted_average m l e \<le> c" by (simp only: W)
  have "b * x6 \<le> b * (b * b * b * N / (a * x5))"
    using qhi b(3) by (intro mult_left_mono) auto
  with cc(2) have "c \<le> b * (b * b * b * N / (a * x5))" by linarith
  moreover have "b * (b * b * b * N / (a * x5)) = b ^ 4 / a * (N / x5)"
    by (simp add: power4_eq_xxxx)
  ultimately have hi: "c \<le> b ^ 4 / a * weighted_average m l e" by (simp only: W)
  have tnz: "t \<noteq> 0" using tpos by simp
  have "com2_of m l e = Inr c"
    unfolding com2_of_def fmul_def half_def fadd_def fdiv_def
    using tnz
    by (simp add: c_def x6_def s_def t_def x5_def x4_def p2_def p3_def x2_def x3_def
        p1_def x1_def)
  then have val: "\<exists>c. com2_of m l e = Inr c
      \<and> (1 - 2 powr (- 53)) ^ 4 / (1 + 2 powr (- 53)) * weighted_average m l e \<le> c
      \<and> c \<le> (1 + 2 powr (- 53)) ^ 4 / (1 - 2 powr (- 53)) * weighted_average m l e"
    using lo hi unfolding a_def b_def by blast
  have H: "(0::real) < 2 powr 1000" by simp
  have H2: "(2::real) powr 1000 = 2 powr 500 * 2 powr 500"
    by (simp flip: powr_add)
  have HH: "(2::real) powr 500 \<le> 2 powr 1000" by (rule powr_mono) simp_all
  have x1hi: "x1 \<le> 2 powr 1000"
    unfolding x1_def H2 using mh lh mpos lpos by (intro mult_mono) auto
  have x3hi: "x3 \<le> 2 powr 1000"
    unfolding x3_def H2 using eh lh lpos by (intro mult_mono) auto
  have "b * x1 \<le> 2 * x1" using b(2) x1pos by (intro mult_right_mono) auto
  with p1(2) have x2hi: "x2 \<le> x1" by (simp add: x2_def)
  have "b * b \<le> 2 * 2" using b by (intro mult_mono) auto
  then have bb: "b * b \<le> 4" by simp
  have Nhi: "N \<le> 2 * 2 powr 1000" using x1hi x3hi x1pos by (simp add: N_def)
  have "b * b * N \<le> 4 * N" using bb Nnn by (intro mult_right_mono) auto
  with x4hi Nhi have x4hi': "x4 \<le> 8 * 2 powr 1000" by linarith
  have x5hi: "x5 \<le> 2 * 2 powr 1000" using mh eh HH unfolding x5_def by linarith
  have b3: "b * b * b \<le> 4 * 2" using bb b by (intro mult_mono) auto
  have ia: "1 / a \<le> 2" using a by (simp add: field_simps)
  have "b * b * b * (1 / a) \<le> 4 * 2 * 2"
    using b3 ia by (rule mult_mono) (use a(3) in simp_all)
  then have "b * b * b * (1 / a) * (N / x5) \<le> 4 * 2 * 2 * (N / x5)"
    using Wpos by (intro mult_right_mono) auto
  moreover have "b * b * b * (1 / a) * (N / x5) = b * b * b * N / (a * x5)" by simp
  moreover have "N / x5 \<le> l"
    using weighted_average_bounds(2) [OF mpos lpos epos] by (simp only: W)
  ultimately have "b * b * b * N / (a * x5) \<le> 16 * l" by linarith
  with qhi lh HH have x6hi: "x6 \<le> 16 * 2 powr 1000" by linarith
  have x6pos: "0 \<le> x6" using x6lo lpos by linarith
  have o1: "\<not> overflows x1" using x1pos x1hi H by (intro not_overflows_le) linarith+
  have o2: "\<not> overflows x2" using x2pos x2hi x1hi H by (intro not_overflows_le) linarith+
  have o3: "\<not> overflows x3" using x3nn x3hi H by (intro not_overflows_le) linarith+
  have o4: "\<not> overflows x4" using x4pos x4hi' H by (intro not_overflows_le) linarith+
  have o5: "\<not> overflows x5" using x5pos x5hi H by (intro not_overflows_le) linarith+
  have o6: "\<not> overflows x6" using x6pos x6hi by (intro not_overflows_le) linarith+
  have fin: "com2_finite m l e"
    using o1 o2 o3 o4 o5 o6
    unfolding com2_finite_def fmul_def half_def fadd_def
      x6_def s_def t_def x5_def x4_def p2_def p3_def x2_def x3_def p1_def x1_def
    by blast
  from fin val show ?thesis by blast
qed

section \<open>Properties of the arm model\<close>

lemma calculate_sizes_ok:
  "length q = 2 \<Longrightarrow> length v = 2 \<Longrightarrow>
   calculate_inverse_dynamics cid self q v vd =
     (Inl AttributeError,
      self\<lparr>arm_context := (arm_context self)\<lparr>positions := q, velocities := v\<rparr>\<rparr>)"
  by (simp add: calculate_inverse_dynamics_def SetPositions_def SetVelocities_def
      MultibodyForces_def num_positions_def num_velocities_def)

lemma calculate_bad_q:
  "length q \<noteq> 2 \<Longrightarrow> calculate_inverse_dynamics cid self q v vd = (Inl PlantError, self)"
  by (simp add: calculate_inverse_dynamics_def SetPositions_def num_positions_def)

lemma calculate_bad_v:
  "length q = 2 \<Longrightarrow> length v \<noteq> 2 \<Longrightarrow>
   calculate_inverse_dynamics cid self q v vd =
     (Inl PlantError, self\<lparr>arm_context := (arm_context self)\<lparr>positions := q\<rparr>\<rparr>)"
  by (simp add: calculate_inverse_dynamics_def SetPositions_def SetVelocities_def
      num_positions_def num_velocities_def)


lemma model_state_calculate:
  "model_state (snd (calculate_inverse_dynamics cid self q v vd)) = model_state self"
proof (cases "length q = 2")
  case False
  then have "calculate_inverse_dynamics cid self q v vd = (Inl PlantError, self)"
    by (rule calculate_bad_q)
  then show ?thesis by simp
next
  case q: True
  show ?thesis
  proof (cases "length v = 2")
    case False
    with q have "calculate_inverse_dynamics cid self q v vd =
        (Inl PlantError, self\<lparr>arm_context := (arm_context self)\<lparr>positions := q\<rparr>\<rparr>)"
      by (rule calculate_bad_v)
    then show ?thesis by (simp add: model_state_def)
  next
    case True
    show ?thesis
      by (simp add: calculate_sizes_ok [OF q True] model_state_def)
  qed
qed

lemma calculate_reads_model_state:
  assumes "model_state a = model_state b"
  shows "fst (calculate_inverse_dynamics cid a q v vd)
         = fst (calculate_inverse_dynamics cid b q v vd)"
proof (cases "length q = 2")
  case False
  then show ?thesis by (simp add: calculate_bad_q)
next
  case q: True
  show ?thesis
  proof (cases "length v = 2")
    case False
    then show ?thesis by (simp add: calculate_bad_v [OF q])
  next
    case True
    show ?thesis by (simp add: calculate_sizes_ok [OF q True])
  qed
qed

lemma set_end_mass_reads_model_state:
  assumes "model_state a = model_state b"
  shows "map_sum id model_state (set_end_mass a m) = map_sum id model_state (set_end_mass b m)"
proof -
  from assms have eqs: "m2 a = m2 b" "l2 a = l2 b"
    by (simp_all add: model_state_def)
  have same: "set_end_mass a m = Inl x \<longleftrightarrow> set_end_mass b m = Inl x" for x
    by (simp only: set_end_mass_eq eqs)
  obtain x where ax: "set_end_mass a m = Inl x"
    using set_end_mass_never_returns [of a m] by (cases "set_end_mass a m") auto
  with same have bx: "set_end_mass b m = Inl x" by blast
  show ?thesis by (simp only: ax bx)
qed

text \<open>
  C1. The specification has \<open>set_end_mass\<close> install the recomputed mass, centre of mass
  and inertia as link 2's spatial inertia. For the arm of ControlGUI.py and the end mass
  2, the call gets through lines 71 to 73 and raises \<open>AttributeError\<close> at line 76:
  nothing is installed. \<open>set_end_mass_never_returns\<close> above says so for every arm and
  every end mass.
\<close>

theorem update_raises_before_installing:
  "set_end_mass gui_arm 2 = Inl AttributeError"
proof -
  have "(2::real) powr (- 1074) \<le> \<bar>1 / 2 + 2\<bar>"
    using powr_1074_small by simp
  then have "fadd (1 / 2) 2 \<noteq> 0"
    unfolding fadd_def by (rule round_double_nonzero)
  then show ?thesis by (rule gui_arm_update)
qed

text \<open>
  C2. The specification has the shoulder torque at the horizontal configuration grow
  with the end mass. For the arm of ControlGUI.py, the update to the end mass 0.5 raises
  \<open>AttributeError\<close>, and the query at \<open>q = [0, 0]\<close> with zero velocities and
  accelerations raises \<open>AttributeError\<close> at line 94: no torque is returned to compare.
\<close>

theorem query_raises_before_solving:
  "set_end_mass gui_arm (1 / 2) = Inl AttributeError
   \<and> fst (calculate_inverse_dynamics zero_torque_solver gui_arm [0, 0] [0, 0] [0, 0])
     = Inl AttributeError"
proof -
  have "(2::real) powr (- 1074) \<le> \<bar>1 / 2 + 1 / 2\<bar>"
    using powr_1074_small by simp
  then have "fadd (1 / 2) (1 / 2) \<noteq> 0"
    unfolding fadd_def by (rule round_double_nonzero)
  then have "set_end_mass gui_arm (1 / 2) = Inl AttributeError" by (rule gui_arm_update)
  then show ?thesis by (simp add: calculate_sizes_ok)
qed




text \<open>
  C4. \<open>set_end_mass\<close> is idempotent: a second call with the same mass returns what the
  first call returned, error or arm; after a successful call, a repeated call leaves the
  arm as it is, so every later query returns the same outcome and the same arm whether
  the update ran once or twice. A call that raises has stored nothing, so the arm it
  leaves is the arm it was given: the arm after two calls is the arm after one, the
  second call ends as the first did, and a later query has the same outcome and leaves
  the same arm in both cases.
\<close>

theorem set_end_mass_idempotent:
  "(case set_end_mass self m of Inl x \<Rightarrow> Inl x | Inr self' \<Rightarrow> set_end_mass self' m)
     = set_end_mass self m
   \<and> (\<forall>self'. set_end_mass self m = Inr self' \<longrightarrow>
         set_end_mass self' m = Inr self'
         \<and> (\<forall>cid q v vd.
               calculate_inverse_dynamics cid (projr (set_end_mass self' m)) q v vd
               = calculate_inverse_dynamics cid self' q v vd))
   \<and> (let once = (case set_end_mass self m of Inl x \<Rightarrow> self | Inr self' \<Rightarrow> self');
           twice = (case set_end_mass once m of Inl x \<Rightarrow> once | Inr self' \<Rightarrow> self')
       in twice = once
          \<and> set_end_mass once m = set_end_mass self m
          \<and> calculate_inverse_dynamics cid twice q v vd
            = calculate_inverse_dynamics cid once q v vd)"
  by (cases "set_end_mass self m") (simp_all add: set_end_mass_never_returns Let_def)

theorem set_end_mass_idempotent_witness:
  "(case set_end_mass gui_arm 2 of Inl x \<Rightarrow> Inl x | Inr self' \<Rightarrow> set_end_mass self' 2)
     = set_end_mass gui_arm 2
   \<and> (let once = (case set_end_mass gui_arm 2 of Inl x \<Rightarrow> gui_arm | Inr self' \<Rightarrow> self');
           twice = (case set_end_mass once 2 of Inl x \<Rightarrow> once | Inr self' \<Rightarrow> self')
       in twice = once
          \<and> set_end_mass once 2 = set_end_mass gui_arm 2
          \<and> calculate_inverse_dynamics zero_torque_solver twice [0, 0] [0, 0] [0, 0]
            = calculate_inverse_dynamics zero_torque_solver once [0, 0] [0, 0] [0, 0])"
  using set_end_mass_idempotent
    [where self = gui_arm and m = 2 and cid = zero_torque_solver
       and q = "[0, 0]" and v = "[0, 0]" and vd = "[0, 0]"]
  by blast




text \<open>
  C9. \<open>set_end_mass\<close> divides by the float sum of \<open>m2\<close> and \<open>end_mass\<close>. With \<open>m2 > 0\<close>
  and \<open>end_mass \<ge> 0\<close> this denominator is strictly positive and the call does not
  raise the division-by-zero error; with \<open>end_mass = - m2\<close> it does.
\<close>

theorem set_end_mass_division_defined:
  "(is_double (m2 self) \<and> 0 < m2 self \<and> 0 \<le> end_mass \<longrightarrow>
      0 < fadd (m2 self) end_mass \<and> set_end_mass self end_mass \<noteq> Inl ZeroDivisionError)
   \<and> set_end_mass self (- m2 self) = Inl ZeroDivisionError"
proof (intro conjI impI)
  assume h: "is_double (m2 self) \<and> 0 < m2 self \<and> 0 \<le> end_mass"
  then show pos: "0 < fadd (m2 self) end_mass" by (simp add: fadd_positive)
  then show "set_end_mass self end_mass \<noteq> Inl ZeroDivisionError"
    by (simp add: set_end_mass_zero_division)
next
  show "set_end_mass self (- m2 self) = Inl ZeroDivisionError"
    by (simp add: set_end_mass_zero_division fadd_opposite)
qed

theorem set_end_mass_division_defined_witness:
  "is_double (m2 gui_arm) \<and> 0 < m2 gui_arm \<and> (0::real) \<le> 1
   \<and> 0 < fadd (m2 gui_arm) 1
   \<and> set_end_mass gui_arm 1 \<noteq> Inl ZeroDivisionError
   \<and> set_end_mass gui_arm (- (1 / 2)) = Inl ZeroDivisionError"
proof -
  have m: "m2 gui_arm = 1 / 2" by (simp add: gui_arm_def)
  have h: "is_double (m2 gui_arm) \<and> 0 < m2 gui_arm \<and> (0::real) \<le> 1"
    using is_double_half by (simp add: m)
  with set_end_mass_division_defined [of gui_arm 1]
  have a: "0 < fadd (m2 gui_arm) 1 \<and> set_end_mass gui_arm 1 \<noteq> Inl ZeroDivisionError"
    by blast
  from set_end_mass_division_defined [of gui_arm 1]
  have "set_end_mass gui_arm (- m2 gui_arm) = Inl ZeroDivisionError" by blast
  then have b: "set_end_mass gui_arm (- (1 / 2)) = Inl ZeroDivisionError" by (simp only: m)
  from h a b show ?thesis by blast
qed

text \<open>
  C8. The query is a function of its inputs and of the model state. It leaves the four
  numbers, the plant, the end-mass parameter and link 2's spatial inertia as they were;
  its outcome does not depend on the positions and velocities the context held before;
  so the positions and velocities an earlier query wrote change neither the outcome of a
  later query nor, up to those two entries, the result of a later update.
\<close>

theorem inverse_dynamics_frame:
  "model_state (snd (calculate_inverse_dynamics cid self q v vd)) = model_state self
   \<and> fst (calculate_inverse_dynamics cid
            (self\<lparr>arm_context := (arm_context self)\<lparr>positions := p, velocities := w\<rparr>\<rparr>) q v vd)
      = fst (calculate_inverse_dynamics cid self q v vd)
   \<and> fst (calculate_inverse_dynamics cid
            (snd (calculate_inverse_dynamics cid' self q' v' vd')) q v vd)
      = fst (calculate_inverse_dynamics cid self q v vd)
   \<and> map_sum id model_state
        (set_end_mass (snd (calculate_inverse_dynamics cid self q v vd)) m)
      = map_sum id model_state (set_end_mass self m)"
proof (intro conjI)
  show "model_state (snd (calculate_inverse_dynamics cid self q v vd)) = model_state self"
    by (rule model_state_calculate)
  have "model_state (self\<lparr>arm_context := (arm_context self)\<lparr>positions := p, velocities := w\<rparr>\<rparr>)
        = model_state self"
    by (simp add: model_state_def)
  then show "fst (calculate_inverse_dynamics cid
            (self\<lparr>arm_context := (arm_context self)\<lparr>positions := p, velocities := w\<rparr>\<rparr>) q v vd)
      = fst (calculate_inverse_dynamics cid self q v vd)"
    by (rule calculate_reads_model_state)
  show "fst (calculate_inverse_dynamics cid
            (snd (calculate_inverse_dynamics cid' self q' v' vd')) q v vd)
      = fst (calculate_inverse_dynamics cid self q v vd)"
    by (rule calculate_reads_model_state [OF model_state_calculate])
  show "map_sum id model_state
        (set_end_mass (snd (calculate_inverse_dynamics cid self q v vd)) m)
      = map_sum id model_state (set_end_mass self m)"
    by (rule set_end_mass_reads_model_state [OF model_state_calculate])
qed

theorem inverse_dynamics_frame_witness:
  "model_state (snd (calculate_inverse_dynamics zero_torque_solver gui_arm [1, 2] [3, 4] [0, 0]))
     = model_state gui_arm
   \<and> fst (calculate_inverse_dynamics zero_torque_solver
            (snd (calculate_inverse_dynamics zero_torque_solver gui_arm [1, 2] [3, 4] [0, 0]))
            [0, 0] [0, 0] [0, 0])
      = fst (calculate_inverse_dynamics zero_torque_solver gui_arm [0, 0] [0, 0] [0, 0])"
  using inverse_dynamics_frame
    [where cid = zero_torque_solver and cid' = zero_torque_solver and self = gui_arm
       and q' = "[1, 2]" and v' = "[3, 4]" and vd' = "[0, 0]"
       and q = "[0, 0]" and v = "[0, 0]" and vd = "[0, 0]"]
    inverse_dynamics_frame
    [where cid = zero_torque_solver and self = gui_arm
       and q = "[1, 2]" and v = "[3, 4]" and vd = "[0, 0]"]
  by blast

subsection \<open>The composite centre of mass\<close>

lemma powr_as_power:
  "(2::real) powr (- 500) = 1 / 2 ^ 500"
  "(2::real) powr 500 = 2 ^ 500"
  "(2::real) powr (- 53) = 1 / 2 ^ 53"
  by (simp_all only: powr_minus powr_numeral zero_less_numeral inverse_eq_divide)

lemma weighted_average_gap:
  assumes "0 < m" and "0 \<le> e"
  shows "l - weighted_average m l e = m * l / (2 * (m + e))"
proof -
  have "m + e \<noteq> 0" using assms by simp
  then show ?thesis by (simp add: weighted_average_def field_simps)
qed

lemma weighted_average_limit:
  fixes m l :: real
  shows "((\<lambda>e. weighted_average m l e) \<longlongrightarrow> l) at_top"
proof -
  have grow: "filterlim (\<lambda>e. m + e) at_top at_top"
    by (rule filterlim_tendsto_add_at_top [OF tendsto_const filterlim_ident])
  have small: "((\<lambda>e. (m * l / 2) / (m + e)) \<longlongrightarrow> 0) at_top"
    by (rule tendsto_divide_0 [OF tendsto_const filterlim_at_top_imp_at_infinity [OF grow]])
  have "((\<lambda>e. l - (m * l / 2) / (m + e)) \<longlongrightarrow> l - 0) at_top"
    by (rule tendsto_diff [OF tendsto_const small])
  moreover have "eventually (\<lambda>e. l - (m * l / 2) / (m + e) = weighted_average m l e) at_top"
    using eventually_gt_at_top [of "- m"]
    by eventually_elim (simp add: weighted_average_def field_simps)
  ultimately show ?thesis
    by (simp add: tendsto_cong)
qed

text \<open>
  C10, as the specification states it: for \<open>m2 > 0\<close>, \<open>l2 > 0\<close> and an end mass
  \<open>\<ge> 0\<close> the centre-of-mass offset that \<open>set_end_mass\<close> computes is at least \<open>l2 / 2\<close>,
  and equal to it at the end mass 0. With the doubles nearest to 0.1 and 0.7 as \<open>m2\<close> and
  \<open>l2\<close> and the end mass 0, line 72 computes 0.3499999999999999, the double just below
  \<open>l2 / 2 = 0.35\<close>.
\<close>

theorem composite_com_counterexample:
  "is_double double_0_1 \<and> 0 < double_0_1 \<and> is_double double_0_7 \<and> 0 < double_0_7
   \<and> com2_of double_0_1 double_0_7 0 = Inr (6305039478318693 / 2 ^ 54)
   \<and> half double_0_7 = 6305039478318694 / 2 ^ 54
   \<and> (6305039478318693 / 2 ^ 54 :: real) < half double_0_7"
proof -
  have "double_0_7 / 2 = 6305039478318694 / 2 ^ 54" by (simp add: double_0_7_def)
  then have h: "half double_0_7 = 6305039478318694 / 2 ^ 54" by (simp only: half_0_7)
  have p: "0 < double_0_1" "0 < double_0_7" by (simp_all add: double_0_1_def double_0_7_def)
  have c: "(6305039478318693 / 2 ^ 54 :: real) < half double_0_7"
    unfolding h by simp
  from is_double_0_1 is_double_0_7 p com2_of_0_1_0_7 h c show ?thesis by blast
qed

text \<open>
  C10, amended. For \<open>m2\<close> and \<open>l2\<close> between \<open>1 / 2 ^ 500\<close> and \<open>2 ^ 500\<close> and an end mass
  that is 0 or in that range, no operation of line 72 is out of range, the line does not
  raise, and the offset it computes is the mass-weighted average of \<open>l2 / 2\<close> and \<open>l2\<close> up
  to the rounding of its operations: with \<open>u = 1 / 2 ^ 53\<close>, it lies between the
  average times \<open>(1 - u) ^ 4 / (1 + u)\<close> and the average times \<open>(1 + u) ^ 4 / (1 - u)\<close>.
  The average itself lies between \<open>l2 / 2\<close> and \<open>l2\<close>, is \<open>l2 / 2\<close> at the end mass 0,
  falls short of \<open>l2\<close> by \<open>m2 * l2 / (2 * (m2 + end_mass))\<close> and tends to \<open>l2\<close> as the end
  mass grows. The offset is a value of line 72 only: the call raises at line 76 and
  installs nothing.
\<close>

theorem composite_com_within_rounding:
  assumes "1 / 2 ^ 500 \<le> m2'" and "m2' \<le> 2 ^ 500"
    and "1 / 2 ^ 500 \<le> l2'" and "l2' \<le> 2 ^ 500"
    and "end_mass = 0 \<or> 1 / 2 ^ 500 \<le> end_mass" and "end_mass \<le> 2 ^ 500"
  shows "com2_finite m2' l2' end_mass
    \<and> (\<exists>com2. com2_of m2' l2' end_mass = Inr com2
          \<and> (1 - 1 / 2 ^ 53) ^ 4 / (1 + 1 / 2 ^ 53) * weighted_average m2' l2' end_mass
            \<le> com2
          \<and> com2
            \<le> (1 + 1 / 2 ^ 53) ^ 4 / (1 - 1 / 2 ^ 53) * weighted_average m2' l2' end_mass)
    \<and> l2' / 2 \<le> weighted_average m2' l2' end_mass
    \<and> weighted_average m2' l2' end_mass \<le> l2'
    \<and> weighted_average m2' l2' 0 = l2' / 2
    \<and> l2' - weighted_average m2' l2' end_mass = m2' * l2' / (2 * (m2' + end_mass))
    \<and> ((\<lambda>end_mass. weighted_average m2' l2' end_mass) \<longlongrightarrow> l2') at_top"
proof -
  have B: "(0::real) < 1 / 2 ^ 500" by simp
  from assms(1,3) B have pos: "0 < m2'" "0 < l2'" by linarith+
  have nn: "0 \<le> end_mass"
  proof (cases "end_mass = 0")
    case True
    then show ?thesis by simp
  next
    case False
    with assms(5) have "1 / 2 ^ 500 \<le> end_mass" by simp
    with B show ?thesis by linarith
  qed
  have r: "com2_finite m2' l2' end_mass
    \<and> (\<exists>com2. com2_of m2' l2' end_mass = Inr com2
          \<and> (1 - 2 powr (- 53)) ^ 4 / (1 + 2 powr (- 53)) * weighted_average m2' l2' end_mass
            \<le> com2
          \<and> com2
            \<le> (1 + 2 powr (- 53)) ^ 4 / (1 - 2 powr (- 53)) * weighted_average m2' l2' end_mass)"
    by (rule com2_of_rounding) (simp_all only: powr_as_power assms)
  then have r': "com2_finite m2' l2' end_mass
    \<and> (\<exists>com2. com2_of m2' l2' end_mass = Inr com2
          \<and> (1 - 1 / 2 ^ 53) ^ 4 / (1 + 1 / 2 ^ 53) * weighted_average m2' l2' end_mass
            \<le> com2
          \<and> com2
            \<le> (1 + 1 / 2 ^ 53) ^ 4 / (1 - 1 / 2 ^ 53) * weighted_average m2' l2' end_mass)"
    by (simp only: powr_as_power)
  have z: "weighted_average m2' l2' 0 = l2' / 2"
    using pos by (simp add: weighted_average_def)
  from r' weighted_average_bounds [OF pos nn] z weighted_average_gap [OF pos(1) nn]
    weighted_average_limit [of m2' l2']
  show ?thesis by blast
qed

theorem composite_com_within_rounding_witness:
  "(1 / 2 ^ 500 :: real) \<le> 1 / 2 \<and> (1 / 2 :: real) \<le> 2 ^ 500
   \<and> (1 / 2 ^ 500 :: real) \<le> 2 \<and> (2 :: real) \<le> 2 ^ 500
   \<and> com2_finite (1 / 2) (1 / 2) 2
   \<and> (\<exists>com2. com2_of (1 / 2) (1 / 2) 2 = Inr com2
          \<and> (1 - 1 / 2 ^ 53) ^ 4 / (1 + 1 / 2 ^ 53) * weighted_average (1 / 2) (1 / 2) 2
            \<le> com2
          \<and> com2
            \<le> (1 + 1 / 2 ^ 53) ^ 4 / (1 - 1 / 2 ^ 53) * weighted_average (1 / 2) (1 / 2) 2)
   \<and> weighted_average (1 / 2) (1 / 2) 2 = 9 / 20"
proof -
  have h: "(1 / 2 ^ 500 :: real) \<le> 1 / 2" "(1 / 2 :: real) \<le> 2 ^ 500"
    "(1 / 2 ^ 500 :: real) \<le> 2" "(2 :: real) \<le> 2 ^ 500"
    by simp_all
  have h5: "(2::real) = 0 \<or> 1 / 2 ^ 500 \<le> (2::real)" using h(3) by blast
  note t = composite_com_within_rounding [OF h(1) h(2) h(1) h(2) h5 h(4)]
  have w: "weighted_average (1 / 2) (1 / 2) 2 = 9 / 20"
    by (simp add: weighted_average_def)
  from t h w show ?thesis by blast
qed

section \<open>Properties of the control loop\<close>

lemma main_loop_first:
  "\<exists>tr out. main_loop (Suc n) e i = (Cycle (position_commands (clock e i)) # tr, out)"
proof -
  obtain evs x where it: "iteration e i = (evs, x)" by (cases "iteration e i")
  have hd: "\<exists>rest. evs = Cycle (position_commands (clock e i)) # rest"
    using it
    by (auto simp: iteration_def Let_def split: sum.splits option.splits)
  then obtain rest where evs: "evs = Cycle (position_commands (clock e i)) # rest" by blast
  show ?thesis
  proof (cases x)
    case None
    obtain tr out where "main_loop n e (Suc i) = (tr, out)" by (cases "main_loop n e (Suc i)")
    with it None evs show ?thesis by simp
  next
    case (Some y)
    with it evs show ?thesis by simp
  qed
qed

lemma iteration_on_list_raises:
  assumes "cycle_reply e (Suc i) (position_commands (clock e i)) = Inr (py_list rs)"
  shows "iteration e i = ([Cycle (position_commands (clock e i))], Some AttributeError)"
  using assms by (simp add: iteration_def py_list_def)

text \<open>
  C6. In every run of \<open>main\<close>, the first event is the cycle of the stop commands of both
  servos, so no position command is handed to the transport before it; and whatever that
  cycle returns, an empty list included, the next event is the cycle of the position
  commands of the first iteration.
\<close>

theorem first_cycle_stops_all:
  "(\<exists>tr. fst (main n e) = Cycle [make_stop 1, make_stop 2] # tr)
   \<and> (\<forall>r. cycle_reply e 0 [make_stop 1, make_stop 2] = Inr r \<longrightarrow>
         (\<exists>tr. fst (main (Suc n) e)
                = Cycle [make_stop 1, make_stop 2] # Cycle (position_commands (clock e 0)) # tr))"
proof (intro conjI allI impI)
  show "\<exists>tr. fst (main n e) = Cycle [make_stop 1, make_stop 2] # tr"
    by (cases "main_loop n e 0")
       (simp add: main_def stop_commands_def split: sum.split)
next
  fix r
  assume r: "cycle_reply e 0 [make_stop 1, make_stop 2] = Inr r"
  from main_loop_first [of n e 0] obtain tr out
    where "main_loop (Suc n) e 0 = (Cycle (position_commands (clock e 0)) # tr, out)"
    by blast
  with r show "\<exists>tr. fst (main (Suc n) e)
                = Cycle [make_stop 1, make_stop 2] # Cycle (position_commands (clock e 0)) # tr"
    by (simp add: main_def stop_commands_def)
qed

theorem first_cycle_stops_all_witness:
  "cycle_reply silent_env 0 [make_stop 1, make_stop 2] = Inr (py_list [])
   \<and> fst (main 1 silent_env)
     = [Cycle [make_stop 1, make_stop 2],
        Cycle [make_position 1 (Some 0) NaN 0 True,
               make_position 2 None NaN (1 / 10 * sin 1) True]]"
proof -
  have r: "cycle_reply silent_env 0 [make_stop 1, make_stop 2] = Inr (py_list [])"
    by (simp add: silent_env_def)
  from first_cycle_stops_all [of 0 silent_env] r
  obtain tr where t: "fst (main (Suc 0) silent_env)
      = Cycle [make_stop 1, make_stop 2] # Cycle (position_commands (clock silent_env 0)) # tr"
    by blast
  have "fst (main (Suc 0) silent_env)
      = [Cycle [make_stop 1, make_stop 2], Cycle (position_commands (clock silent_env 0))]"
    by (simp add: main_def stop_commands_def silent_env_def iteration_def py_list_def)
  with t have "tr = []" by simp
  with t r show ?thesis
    by (simp add: position_commands_def silent_env_def)
qed

lemma list_reply_never_sleeps:
  assumes "\<And>k cs r. cycle_reply e k cs = Inr r \<Longrightarrow> values_attr r = None"
  shows "sleeps (fst (main n e)) = [] \<and> snd (main (Suc n) e) \<noteq> None"
proof -
  have it: "\<exists>x. iteration e i = ([Cycle (position_commands (clock e i))], Some x)" for i
  proof (cases "cycle_reply e (Suc i) (position_commands (clock e i))")
    case (Inl x)
    then show ?thesis by (simp add: iteration_def)
  next
    case (Inr r)
    with assms have "values_attr r = None" by blast
    with Inr show ?thesis by (simp add: iteration_def)
  qed
  have loop: "\<exists>x. main_loop (Suc k) e i = ([Cycle (position_commands (clock e i))], Some x)"
    for k i
    using it [of i] by auto
  have s: "sleeps (fst (main_loop k e i)) = []" for k i
  proof (cases k)
    case 0
    then show ?thesis by simp
  next
    case (Suc j)
    with loop [of j i] show ?thesis by auto
  qed
  show ?thesis
  proof (cases "cycle_reply e 0 stop_commands")
    case (Inl x)
    then show ?thesis by (simp add: main_def)
  next
    case (Inr r)
    obtain x where "main_loop (Suc n) e 0 = ([Cycle (position_commands (clock e 0))], Some x)"
      using loop [of n 0] by blast
    moreover obtain tr out where m: "main_loop n e 0 = (tr, out)" by (cases "main_loop n e 0")
    moreover from s [of n 0] m have "sleeps tr = []" by simp
    ultimately show ?thesis using Inr by (simp add: main_def)
  qed
qed

text \<open>
  C7. The specification has every iteration end by sleeping. With a transport that
  returns the results of both servos as a list, the first iteration raises
  \<open>AttributeError\<close> at line 167, after its cycle and before the line is printed: the run
  ends there, however many iterations are allowed, and its trace has the stop cycle, the
  first position cycle and no sleep. \<open>list_reply_never_sleeps\<close> above says so for every
  transport that returns lists.
\<close>

theorem loop_raises_before_sleeping:
  "main (Suc n) replying_env
     = ([Cycle stop_commands, Cycle (position_commands (clock replying_env 0))],
        Some AttributeError)
   \<and> sleeps (fst (main (Suc n) replying_env)) = []"
  by (simp add: main_def replying_env_def iteration_def py_list_def)

end
